theory Spec2Isabelle
  imports Main "HOL-Library.AList"
begin

section \<open>JavaScript strings and objects\<close>

text \<open>
  A JavaScript string is modelled as a \<open>string\<close>, a list of code units below 256 (the
  Latin-1 range); every pattern and sentinel of the program is ASCII. A plain object
  (a row, a field mapping, a contact's data) is the association list of its own
  properties in insertion order. Reading \<open>obj[k]\<close> is \<open>getProperty\<close>: an own property,
  else a property inherited from \<open>Object.prototype\<close>, else \<open>undefined\<close>. Writing
  \<open>obj[k] = v\<close> is \<open>setProperty\<close>: an existing key keeps its place, a new key goes last,
  and an assignment to \<open>__proto__\<close> creates no own property. \<open>Object.entries\<close> and
  \<open>Object.keys\<close> are \<open>objectEntries\<close> and \<open>objectKeys\<close>: the array-index keys first, in
  ascending order, then the other keys in insertion order. Where every key is a constant
  of the program that is neither an array index nor a name on \<open>Object.prototype\<close> (the
  pattern table, the shape of a schema), \<open>map_of\<close>, \<open>AList.update\<close> and the list itself
  are used directly.
\<close>

definition isWhiteSpace :: "char \<Rightarrow> bool" where
  \<comment> \<open>the characters \<open>String.prototype.trim\<close> strips, below 256\<close>
  "isWhiteSpace c \<longleftrightarrow>
     c = CHR 0x09 \<or> c = CHR 0x0A \<or> c = CHR 0x0B \<or> c = CHR 0x0C \<or> c = CHR 0x0D \<or>
     c = CHR 0x20 \<or> c = CHR 0xA0"

definition trim :: "string \<Rightarrow> string" where
  "trim s = rev (dropWhile isWhiteSpace (rev (dropWhile isWhiteSpace s)))"

definition toLowerChar :: "char \<Rightarrow> char" where
  "toLowerChar c =
     (let n = (of_char c :: nat)
      in if (65 \<le> n \<and> n \<le> 90) \<or> (192 \<le> n \<and> n \<le> 222 \<and> n \<noteq> 215)
         then char_of (n + 32) else c)"

definition toLowerCase :: "string \<Rightarrow> string" where
  "toLowerCase s = map toLowerChar s"

fun startsWith :: "string \<Rightarrow> string \<Rightarrow> bool" where
  "startsWith s [] = True"
| "startsWith [] (p # ps) = False"
| "startsWith (c # cs) (p # ps) = (c = p \<and> startsWith cs ps)"

fun split :: "char \<Rightarrow> string \<Rightarrow> string list" where
  \<comment> \<open>\<open>s.split(sep)\<close> for a one-character separator: never the empty list\<close>
  "split sep [] = [[]]"
| "split sep (c # cs) =
     (if c = sep then [] # split sep cs
      else (case split sep cs of [] \<Rightarrow> [[c]] | part # parts \<Rightarrow> (c # part) # parts))"

fun str_includes :: "string \<Rightarrow> string \<Rightarrow> bool" where
  \<comment> \<open>\<open>s.includes(p)\<close>: \<open>p\<close> occurs in \<open>s\<close> as a substring\<close>
  "str_includes [] p = (p = [])"
| "str_includes (c # cs) p = (startsWith (c # cs) p \<or> str_includes cs p)"


datatype js_value =
    Str string
  | Object

fun truthy :: "js_value \<Rightarrow> bool" where
  \<comment> \<open>\<open>Object\<close> stands for a function or an object: truthy, and not a string\<close>
  "truthy (Str s) = (s \<noteq> [])"
| "truthy Object = True"

definition objectPrototypeProperties :: "string list" where
  \<comment> \<open>the properties every plain object inherits; each is a function or an object\<close>
  "objectPrototypeProperties =
    [''constructor'', ''__defineGetter__'', ''__defineSetter__'', ''hasOwnProperty'',
     ''__lookupGetter__'', ''__lookupSetter__'', ''isPrototypeOf'', ''propertyIsEnumerable'',
     ''toString'', ''valueOf'', ''__proto__'', ''toLocaleString'']"

definition getProperty :: "(string \<times> string) list \<Rightarrow> string \<Rightarrow> js_value option" where
  \<comment> \<open>\<open>obj[k]\<close> on a plain object whose own properties hold strings; \<open>None\<close> is
      \<open>undefined\<close>\<close>
  "getProperty obj k =
     (case map_of obj k of
        Some cell \<Rightarrow> Some (Str cell)
      | None \<Rightarrow> if k \<in> set objectPrototypeProperties then Some Object else None)"

definition setProperty :: "string \<Rightarrow> 'v \<Rightarrow> (string \<times> 'v) list \<Rightarrow> (string \<times> 'v) list" where
  \<comment> \<open>\<open>obj[k] = v\<close> on a plain object: without an own property of that name, an
      assignment to \<open>__proto__\<close> goes to the inherited setter (a string is ignored, an
      object replaces the prototype) and the own properties stay as they are\<close>
  "setProperty k v obj =
     (if k = ''__proto__'' \<and> map_of obj k = None then obj else AList.update k v obj)"

definition isDigit :: "char \<Rightarrow> bool" where
  "isDigit c \<longleftrightarrow> 48 \<le> (of_char c :: nat) \<and> (of_char c :: nat) \<le> 57"

definition digitsValue :: "string \<Rightarrow> int" where
  "digitsValue s = foldl (\<lambda>n c. 10 * n + ((of_char c :: int) - 48)) 0 s"

definition isArrayIndex :: "string \<Rightarrow> bool" where
  \<comment> \<open>a canonical numeric string below \<open>2^32 - 1\<close>\<close>
  "isArrayIndex s =
     (case s of
        [] \<Rightarrow> False
      | c # cs \<Rightarrow>
          list_all isDigit s \<and> (c \<noteq> CHR ''0'' \<or> cs = []) \<and> digitsValue s < 4294967295)"

definition objectEntries :: "(string \<times> 'v) list \<Rightarrow> (string \<times> 'v) list" where
  "objectEntries obj =
     sort_key (\<lambda>(k, v). digitsValue k) (filter (\<lambda>(k, v). isArrayIndex k) obj) @
     filter (\<lambda>(k, v). \<not> isArrayIndex k) obj"

definition objectKeys :: "(string \<times> 'v) list \<Rightarrow> string list" where
  "objectKeys obj = map fst (objectEntries obj)"


section \<open>Field detection (server/routes.ts, detectFields)\<close>

text \<open>
  \<open>detectCSVFields\<close> in client/src/lib/csv-utils.ts is the same function, token for
  token; the definitions below stand for both.
\<close>

definition fieldPatterns :: "(string \<times> string list) list" where
  "fieldPatterns =
    [(''firstName'', [''first name'', ''firstname'', ''fname'', ''first_name'']),
     (''lastName'', [''last name'', ''lastname'', ''lname'', ''last_name'']),
     (''title'', [''title'', ''job title'', ''position'', ''role'', ''job_title'']),
     (''company'', [''company'', ''organization'', ''employer'', ''company_name'']),
     (''email'', [''email'', ''email address'', ''e-mail'', ''email_address'']),
     (''mobilePhone'', [''mobile'', ''mobile phone'', ''cell'', ''cell phone'', ''mobile_phone'']),
     (''otherPhone'', [''phone'', ''other phone'', ''telephone'', ''other_phone'']),
     (''corporatePhone'', [''corporate phone'', ''work phone'', ''office phone'', ''corporate_phone'']),
     (''personLinkedinUrl'', [''linkedin'', ''person linkedin'', ''personal linkedin'', ''person_linkedin_url'']),
     (''companyLinkedinUrl'', [''company linkedin'', ''company_linkedin_url'']),
     (''website'', [''website'', ''url'', ''web'', ''site''])]"

definition somePattern :: "string list \<Rightarrow> string \<Rightarrow> bool" where
  \<comment> \<open>\<open>patterns.some(pattern => normalizedHeader.includes(pattern))\<close>\<close>
  "somePattern patterns normalizedHeader =
     list_ex (\<lambda>pattern. str_includes normalizedHeader pattern) patterns"

definition headerMatches :: "string list \<Rightarrow> string \<Rightarrow> bool" where
  "headerMatches patterns header = somePattern patterns (trim (toLowerCase header))"

definition scanEntry ::
  "string \<Rightarrow> string \<times> string list \<Rightarrow> (string \<times> string) list \<Rightarrow> (string \<times> string) list" where
  \<comment> \<open>the body of the inner \<open>forEach\<close> over \<open>Object.entries(fieldPatterns)\<close>\<close>
  "scanEntry header entry mapping =
     (case entry of (field, patterns) \<Rightarrow>
        if somePattern patterns (trim (toLowerCase header))
        then AList.update field header mapping else mapping)"

definition scanHeader :: "string \<Rightarrow> (string \<times> string) list \<Rightarrow> (string \<times> string) list" where
  \<comment> \<open>the body of the outer \<open>headers.forEach\<close>\<close>
  "scanHeader header mapping = fold (scanEntry header) fieldPatterns mapping"

definition detectFields :: "string list \<Rightarrow> (string \<times> string) list" where
  "detectFields headers = fold scanHeader headers []"


section \<open>Field mapping schema (shared/schema.ts)\<close>

text \<open>
  \<open>fieldMappingSchema\<close> is a \<open>z.object\<close> of eleven keys, each \<open>z.string().optional()\<close>,
  without \<open>.strict()\<close>. Its \<open>parse\<close> reads each key of the shape from the input object:
  an absent key is left out of the result, a string is copied, any other value is an
  issue and the parse throws a \<open>ZodError\<close>; keys of the input that are not in the shape
  are stripped. The input is the value \<open>JSON.parse\<close> returned.
\<close>

datatype json =
    JNull
  | JBool bool
  | JNumber int
  | JString string
  | JArray "json list"
  | JObject "(string \<times> json) list"

datatype zod_error = ZodError

definition fieldMappingSchema :: "string list" where
  "fieldMappingSchema =
    [''firstName'', ''lastName'', ''title'', ''company'', ''email'', ''mobilePhone'',
     ''otherPhone'', ''corporatePhone'', ''personLinkedinUrl'', ''companyLinkedinUrl'',
     ''website'']"

fun parseOptionalString :: "json option \<Rightarrow> zod_error + string option" where
  "parseOptionalString None = Inr None"
| "parseOptionalString (Some (JString s)) = Inr (Some s)"
| "parseOptionalString (Some _) = Inl ZodError"

fun parseShape :: "string list \<Rightarrow> (string \<times> json) list \<Rightarrow> zod_error + (string \<times> string) list" where
  "parseShape [] obj = Inr []"
| "parseShape (key # keys) obj =
     (case parseOptionalString (map_of obj key) of
        Inl e \<Rightarrow> Inl e
      | Inr v \<Rightarrow>
          (case parseShape keys obj of
             Inl e \<Rightarrow> Inl e
           | Inr rest \<Rightarrow> Inr (case v of None \<Rightarrow> rest | Some s \<Rightarrow> (key, s) # rest)))"

fun fieldMappingSchema_parse :: "json \<Rightarrow> zod_error + (string \<times> string) list" where
  "fieldMappingSchema_parse (JObject obj) = parseShape fieldMappingSchema obj"
| "fieldMappingSchema_parse _ = Inl ZodError"


section \<open>Encryption utilities (server/routes.ts, encrypt and decrypt)\<close>

text \<open>
  The cipher objects of Node's \<open>crypto\<close> are parameters. \<open>cipher text\<close> stands for
  \<open>createCipher(ALGORITHM, ENCRYPTION_KEY)\<close> followed by \<open>update(text, 'utf8', 'hex')\<close>
  and \<open>final('hex')\<close>; \<open>decipher encrypted\<close> stands for \<open>createDecipher\<close> followed by
  \<open>update(encrypted, 'hex', 'utf8')\<close> and \<open>final('utf8')\<close>, and is \<open>None\<close> when one of
  them throws. Neither receives the initialization vector.
\<close>

definition hexDigit :: "nat \<Rightarrow> char" where
  "hexDigit n = ''0123456789abcdef'' ! (n mod 16)"

definition toHex :: "string \<Rightarrow> string" where
  \<comment> \<open>\<open>buf.toString('hex')\<close>\<close>
  "toHex bytes =
     concat (map (\<lambda>b. [hexDigit ((of_char b :: nat) div 16), hexDigit ((of_char b :: nat) mod 16)]) bytes)"

definition isHex :: "string \<Rightarrow> bool" where
  "isHex s = list_all (\<lambda>c. c \<in> set ''0123456789abcdef'') s"

definition encrypt :: "(string \<Rightarrow> string) \<Rightarrow> string \<Rightarrow> string \<Rightarrow> string" where
  \<comment> \<open>\<open>iv\<close> is the value of \<open>crypto.randomBytes(16)\<close> in this call\<close>
  "encrypt cipher iv text = toHex iv @ '':'' @ cipher text"

definition decrypt :: "(string \<Rightarrow> string option) \<Rightarrow> string \<Rightarrow> string" where
  "decrypt decipher encryptedData =
     (case split CHR '':'' encryptedData of
        ivHex # encrypted # _ \<Rightarrow>
          (case decipher encrypted of
             Some decrypted \<Rightarrow> decrypted
           | None \<Rightarrow> encryptedData)
      | _ \<Rightarrow> encryptedData)"


section \<open>Server-side CSV parsing (server/routes.ts, parseCSV)\<close>

text \<open>
  The tokenizer is the \<open>csv-parser\<close> package; \<open>parseCSV\<close> only collects what the stream
  emits. The stream is the list of its events up to \<open>end\<close>.
\<close>

datatype csv_event =
    Headers "string list"
  | Data "(string \<times> string) list"
  | Error

datatype stream_error = StreamError

fun collectEvents ::
  "csv_event list \<Rightarrow> string list \<Rightarrow> (string \<times> string) list list \<Rightarrow> bool \<Rightarrow>
   stream_error + (string list \<times> (string \<times> string) list list)" where
  "collectEvents [] headers rows isFirstRow = Inr (headers, rows)"
| "collectEvents (Headers headerList # events) headers rows isFirstRow =
     collectEvents events (headers @ headerList) rows isFirstRow"
| "collectEvents (Data row # events) headers rows isFirstRow =
     collectEvents events
       (if isFirstRow \<and> headers = [] then headers @ objectKeys row else headers)
       (rows @ [row]) False"
| "collectEvents (Error # events) headers rows isFirstRow = Inl StreamError"

definition parseCSV ::
  "csv_event list \<Rightarrow> stream_error + (string list \<times> (string \<times> string) list list)" where
  "parseCSV events = collectEvents events [] [] True"


section \<open>Client-side CSV parsing (client/src/lib/csv-utils.ts, parseCSVFile)\<close>

datatype csv_file_error = CsvFileIsEmpty

definition cleanCell :: "string \<Rightarrow> string" where
  \<comment> \<open>\<open>value.trim().replace(/"/g, '')\<close>\<close>
  "cleanCell s = filter (\<lambda>c. c \<noteq> CHR 0x22) (trim s)"

definition nonEmptyLines :: "string \<Rightarrow> string list" where
  \<comment> \<open>\<open>csv.split('\n').filter(line => line.trim())\<close>\<close>
  "nonEmptyLines csv = filter (\<lambda>line. trim line \<noteq> []) (split CHR 0x0A csv)"

definition buildRow :: "string list \<Rightarrow> string list \<Rightarrow> (string \<times> string) list" where
  \<comment> \<open>\<open>row[header] = values[index] || ''\<close> for every header\<close>
  "buildRow headers vals =
     fold (\<lambda>(header, index) row.
             setProperty header (if index < length vals then vals ! index else []) row)
          (zip headers [0 ..< length headers]) []"

definition parseCSVFile ::
  "string \<Rightarrow> csv_file_error + (string list \<times> (string \<times> string) list list)" where
  "parseCSVFile csv =
     (case nonEmptyLines csv of
        [] \<Rightarrow> Inl CsvFileIsEmpty
      | headerLine # dataLines \<Rightarrow>
          (let headers = map cleanCell (split CHR '','' headerLine);
               rows = map (\<lambda>line. buildRow headers (map cleanCell (split CHR '','' line))) dataLines
           in Inr (headers, rows)))"


section \<open>Storage (server/storage.ts, DatabaseStorage)\<close>

text \<open>
  The two tables are lists in insertion order; a \<open>serial\<close> column takes the next value
  of its sequence. \<open>uploadDate\<close> (the clock) is left out. \<open>createContactsCalls\<close> is
  a history variable: the argument of every call of \<open>createContacts\<close>, in call order.
\<close>

record insertCampaign =
  name :: string
  fileName :: string
  recordCount :: nat
  fileSize :: nat
  fieldMapping :: "(string \<times> string) list"

record campaign = insertCampaign +
  campaign_id :: nat
  status :: string

record insertContact =
  campaignId :: nat
  encryptedData :: string
  fieldValues :: "(string \<times> string) list"

record contact = insertContact +
  contact_id :: nat

record database =
  campaigns :: "campaign list"
  contacts :: "contact list"
  campaigns_id_seq :: nat
  contacts_id_seq :: nat
  createContactsCalls :: "insertContact list list"

definition getCampaignByName :: "database \<Rightarrow> string \<Rightarrow> campaign option" where
  "getCampaignByName db n = find (\<lambda>c. name c = n) (campaigns db)"

definition createCampaign :: "insertCampaign \<Rightarrow> database \<Rightarrow> campaign \<times> database" where
  "createCampaign ins db =
     (let c = \<lparr>name = name ins, fileName = fileName ins, recordCount = recordCount ins,
               fileSize = fileSize ins, fieldMapping = fieldMapping ins,
               campaign_id = Suc (campaigns_id_seq db), status = ''active''\<rparr>
      in (c, db\<lparr>campaigns := campaigns db @ [c],
                campaigns_id_seq := Suc (campaigns_id_seq db)\<rparr>))"

definition insertRow :: "nat \<Rightarrow> insertContact \<Rightarrow> contact" where
  "insertRow i ins =
     \<lparr>campaignId = campaignId ins, encryptedData = encryptedData ins,
      fieldValues = fieldValues ins, contact_id = i\<rparr>"

definition createContacts :: "insertContact list \<Rightarrow> database \<Rightarrow> contact list \<times> database" where
  "createContacts insertContacts db =
     (let db1 = db\<lparr>createContactsCalls := createContactsCalls db @ [insertContacts]\<rparr>
      in if length insertContacts = 0 then ([], db1)
         else
           (let inserted =
                  map (\<lambda>(i, ins). insertRow (Suc (contacts_id_seq db) + i) ins)
                      (zip [0 ..< length insertContacts] insertContacts)
            in (inserted,
                db1\<lparr>contacts := contacts db @ inserted,
                    contacts_id_seq := contacts_id_seq db + length insertContacts\<rparr>)))"


section \<open>Campaign upload (server/routes.ts, POST /api/campaigns)\<close>

text \<open>
  The handler of \<open>POST /api/campaigns\<close>, after authentication and the upload filter.
  Each early \<open>return res.status(...)\<close> and each exception caught at the end of the
  handler is a \<open>Failure\<close> with its status and message. \<open>campaignName\<close> is \<open>None\<close> when
  the form field is missing; \<open>fieldMappingRaw\<close> holds the value of
  \<open>JSON.parse(fieldMappingRaw)\<close>, \<open>None\<close> when that throws. \<open>insertCampaignSchema.parse\<close>
  receives values of its columns' types and returns them; the calls of the store are
  taken to succeed. The environment holds what the handler gets from Node and its
  packages: the events of the \<open>csv-parser\<close> stream for a buffer, \<open>JSON.stringify\<close>, the
  cipher, and the random bytes drawn for the i-th row.
\<close>

definition mapField ::
  "(string \<times> string) list \<Rightarrow> string \<times> string \<Rightarrow> (string \<times> js_value) list \<Rightarrow>
   (string \<times> js_value) list" where
  \<comment> \<open>the body of the \<open>forEach\<close> over \<open>Object.entries(fieldMapping)\<close>: the guard
      \<open>csvColumn && csvColumn !== 'skip' && row[csvColumn]\<close>, then
      \<open>contactData[standardField] = row[csvColumn]\<close>\<close>
  "mapField row entry contactData =
     (case entry of (standardField, csvColumn) \<Rightarrow>
        if csvColumn \<noteq> [] \<and> csvColumn \<noteq> ''skip'' then
          (case getProperty row csvColumn of
             None \<Rightarrow> contactData
           | Some v \<Rightarrow>
               if truthy v then setProperty standardField v contactData else contactData)
        else contactData)"

definition mapFields ::
  "(string \<times> string) list \<Rightarrow> (string \<times> string) list \<Rightarrow> (string \<times> js_value) list" where
  "mapFields row mapping = fold (mapField row) (objectEntries mapping) []"

text \<open>
  \<open>insertContactSchema\<close> is \<open>createInsertSchema(contacts).omit({id})\<close>: an integer
  \<open>campaignId\<close>, a string \<open>encryptedData\<close>, and the eleven text columns, each optional.
  It is applied to \<open>{campaignId, encryptedData, ...contactData}\<close>, so an own property of
  \<open>contactData\<close> replaces a property of the same name written before the spread. A value
  of the wrong type is an issue and the parse throws; other keys are stripped.
\<close>

definition contactColumns :: "string list" where
  "contactColumns =
    [''firstName'', ''lastName'', ''title'', ''company'', ''email'', ''mobilePhone'',
     ''otherPhone'', ''corporatePhone'', ''personLinkedinUrl'', ''companyLinkedinUrl'',
     ''website'']"

fun parseOptionalText :: "js_value option \<Rightarrow> zod_error + string option" where
  "parseOptionalText None = Inr None"
| "parseOptionalText (Some (Str s)) = Inr (Some s)"
| "parseOptionalText (Some Object) = Inl ZodError"

fun parseColumns ::
  "string list \<Rightarrow> (string \<times> js_value) list \<Rightarrow> zod_error + (string \<times> string) list" where
  "parseColumns [] obj = Inr []"
| "parseColumns (key # keys) obj =
     (case parseOptionalText (map_of obj key) of
        Inl e \<Rightarrow> Inl e
      | Inr v \<Rightarrow>
          (case parseColumns keys obj of
             Inl e \<Rightarrow> Inl e
           | Inr rest \<Rightarrow> Inr (case v of None \<Rightarrow> rest | Some s \<Rightarrow> (key, s) # rest)))"

definition insertContactSchema_parse ::
  "nat \<Rightarrow> string \<Rightarrow> (string \<times> js_value) list \<Rightarrow> zod_error + insertContact" where
  "insertContactSchema_parse cid encrypted contactData =
     (case map_of contactData ''campaignId'' of
        Some v \<Rightarrow> Inl ZodError
      | None \<Rightarrow>
     (case parseOptionalText (map_of contactData ''encryptedData'') of
        Inl e \<Rightarrow> Inl e
      | Inr replaced \<Rightarrow>
     (case parseColumns contactColumns contactData of
        Inl e \<Rightarrow> Inl e
      | Inr vals \<Rightarrow>
          Inr \<lparr>campaignId = cid,
               encryptedData = (case replaced of None \<Rightarrow> encrypted | Some s \<Rightarrow> s),
               fieldValues = vals\<rparr>)))"

record environment =
  csv_parser :: "string \<Rightarrow> csv_event list"
  stringify :: "(string \<times> js_value) list \<Rightarrow> string"
  cipher :: "string \<Rightarrow> string"
  randomBytes :: "nat \<Rightarrow> string"

definition toInsertContact ::
  "environment \<Rightarrow> nat \<Rightarrow> (string \<times> string) list \<Rightarrow> nat \<Rightarrow> (string \<times> string) list \<Rightarrow>
   zod_error + insertContact" where
  \<comment> \<open>the body of \<open>rows.map\<close>; \<open>i\<close> numbers the row, for the random bytes it draws\<close>
  "toInsertContact env cid mapping i row =
     (let contactData = mapFields row mapping;
          encryptedData = encrypt (cipher env) (randomBytes env i) (stringify env contactData)
      in insertContactSchema_parse cid encryptedData contactData)"

fun toInsertContacts ::
  "environment \<Rightarrow> nat \<Rightarrow> (string \<times> string) list \<Rightarrow> nat \<Rightarrow> (string \<times> string) list list \<Rightarrow>
   zod_error + insertContact list" where
  \<comment> \<open>\<open>rows.map\<close>, row by row: the first parse that throws ends it\<close>
  "toInsertContacts env cid mapping i [] = Inr []"
| "toInsertContacts env cid mapping i (row # rows) =
     (case toInsertContact env cid mapping i row of
        Inl e \<Rightarrow> Inl e
      | Inr c \<Rightarrow>
          (case toInsertContacts env cid mapping (Suc i) rows of
             Inl e \<Rightarrow> Inl e
           | Inr cs \<Rightarrow> Inr (c # cs)))"

definition batchSize :: nat where
  "batchSize = 100"

definition slice :: "nat \<Rightarrow> nat \<Rightarrow> 'a list \<Rightarrow> 'a list" where
  \<comment> \<open>\<open>xs.slice(i, j)\<close> for \<open>0 \<le> i \<le> j\<close>\<close>
  "slice i j xs = take (j - i) (drop i xs)"

function saveBatches :: "nat \<Rightarrow> insertContact list \<Rightarrow> database \<Rightarrow> database" where
  "saveBatches i contactsData db =
     (if i < length contactsData
      then saveBatches (i + batchSize) contactsData
             (snd (createContacts (slice i (i + batchSize) contactsData) db))
      else db)"
  by pat_completeness auto
termination
  by (relation "measure (\<lambda>(i, contactsData, db). length contactsData - i)")
     (auto simp: batchSize_def)

record uploadedFile =
  buffer :: string
  originalname :: string
  file_size :: nat

record request =
  req_file :: "uploadedFile option"
  campaignName :: "string option"
  fieldMappingRaw :: "json option"

datatype response =
    Failure nat string
  | Success campaign

definition importCampaign :: "environment \<Rightarrow> request \<Rightarrow> database \<Rightarrow> response \<times> database" where
  "importCampaign env req db =
     (case req_file req of
        None \<Rightarrow> (Failure 400 ''No CSV file provided'', db)
      | Some file \<Rightarrow>
     (case campaignName req of
        None \<Rightarrow> (Failure 400 ''Campaign name is required'', db)
      | Some cname \<Rightarrow>
     if cname = [] then (Failure 400 ''Campaign name is required'', db)
     else
     (case fieldMappingRaw req of
        None \<Rightarrow> (Failure 500 ''Failed to upload campaign'', db)
      | Some raw \<Rightarrow>
     (case fieldMappingSchema_parse raw of
        Inl ZodError \<Rightarrow> (Failure 400 ''Invalid data format'', db)
      | Inr mapping \<Rightarrow>
     (case getCampaignByName db cname of
        Some existingCampaign \<Rightarrow> (Failure 400 ''Campaign name already exists'', db)
      | None \<Rightarrow>
     (case parseCSV (csv_parser env (buffer file)) of
        Inl StreamError \<Rightarrow> (Failure 500 ''Failed to upload campaign'', db)
      | Inr (headers, rows) \<Rightarrow>
          (let campaignData = \<lparr>name = cname, fileName = originalname file,
                                recordCount = length rows, fileSize = file_size file,
                                fieldMapping = mapping\<rparr>;
               (campaign, db1) = createCampaign campaignData db
           in (case toInsertContacts env (campaign_id campaign) mapping 0 rows of
                 Inl ZodError \<Rightarrow> (Failure 400 ''Invalid data format'', db1)
               | Inr contactsData \<Rightarrow>
                   (Success campaign, saveBatches 0 contactsData db1)))))))))"


section \<open>Observations and example data\<close>

definition withoutId :: "contact \<Rightarrow> insertContact" where
  \<comment> \<open>a stored contact without its generated identifier\<close>
  "withoutId c =
     \<lparr>campaignId = campaignId c, encryptedData = encryptedData c, fieldValues = fieldValues c\<rparr>"

definition exampleEnvironment :: environment where
  \<comment> \<open>its stream ends without an event for a zero-byte buffer\<close>
  "exampleEnvironment =
     \<lparr>csv_parser = (\<lambda>buf. if buf = [] then []
                        else [Headers [''Name'', ''Mail''],
                              Data [(''Name'', ''Ann''), (''Mail'', ''ann@example.org'')]]),
      stringify = (\<lambda>contactData. concat (map fst contactData)),
      cipher = (\<lambda>text. toHex text),
      randomBytes = (\<lambda>i. ''0123456789abcdef'')\<rparr>"

definition exampleDecipher :: "string \<Rightarrow> string option" where
  \<comment> \<open>a decipher that accepts one payload and throws on every other\<close>
  "exampleDecipher encrypted = (if encrypted = ''6869'' then Some ''hi'' else None)"

definition exampleDatabase :: database where
  \<comment> \<open>a store that holds the campaign Q1 Leads and no contacts\<close>
  "exampleDatabase =
     \<lparr>campaigns =
        [\<lparr>name = ''Q1 Leads'', fileName = ''q1.csv'', recordCount = 0, fileSize = 11,
          fieldMapping = [], campaign_id = 1, status = ''active''\<rparr>],
      contacts = [], campaigns_id_seq = 1, contacts_id_seq = 0, createContactsCalls = []\<rparr>"

definition exampleFile :: uploadedFile where
  "exampleFile = \<lparr>buffer = ''Name,Mail'', originalname = ''q1.csv'', file_size = 9\<rparr>"

definition exampleContact :: insertContact where
  "exampleContact =
     \<lparr>campaignId = 1, encryptedData = ''00:6869'', fieldValues = [(''firstName'', ''Ann'')]\<rparr>"

definition exampleContacts :: "insertContact list" where
  "exampleContacts = replicate 250 exampleContact"


section \<open>Properties of field detection\<close>

lemma distinct_fieldPatterns: "distinct (map fst fieldPatterns)"
  by (simp add: fieldPatterns_def)

lemma fieldPatterns_keys: "map fst fieldPatterns = fieldMappingSchema"
  by (simp add: fieldPatterns_def fieldMappingSchema_def)

lemma map_of_fold_scanEntry:
  "distinct (map fst ps) \<Longrightarrow>
   map_of (fold (scanEntry h) ps m) f =
     (case map_of ps f of
        None \<Rightarrow> map_of m f
      | Some pats \<Rightarrow> if headerMatches pats h then Some h else map_of m f)"
proof (induction ps arbitrary: m)
  case Nil
  then show ?case by simp
next
  case (Cons p ps)
  obtain k pats where p: "p = (k, pats)" by (cases p)
  from Cons.prems have d: "distinct (map fst ps)" and k: "k \<notin> fst ` set ps"
    by (auto simp: p)
  from k have none: "map_of ps k = None"
    by (simp add: map_of_eq_None_iff)
  show ?case
    using Cons.IH [OF d] none
    by (auto simp: p scanEntry_def headerMatches_def update_conv' split: option.splits)
qed

lemma map_of_scanHeader:
  "map_of (scanHeader h m) f =
     (case map_of fieldPatterns f of
        None \<Rightarrow> map_of m f
      | Some pats \<Rightarrow> if headerMatches pats h then Some h else map_of m f)"
  unfolding scanHeader_def by (rule map_of_fold_scanEntry [OF distinct_fieldPatterns])

lemma map_of_fold_scanHeader:
  "map_of (fold scanHeader hs m) f =
     (case map_of fieldPatterns f of
        None \<Rightarrow> map_of m f
      | Some pats \<Rightarrow>
          (case filter (headerMatches pats) hs of
             [] \<Rightarrow> map_of m f
           | x # xs \<Rightarrow> Some (last (x # xs))))"
proof (induction hs arbitrary: m)
  case Nil
  then show ?case by (simp split: option.splits)
next
  case (Cons h hs)
  show ?case
    by (simp add: Cons.IH map_of_scanHeader split: option.splits list.splits)
qed

lemma set_update_subset: "set (AList.update k v al) \<subseteq> insert (k, v) (set al)"
  by (induction al) auto

lemma set_fold_scanEntry:
  "set (fold (scanEntry h) ps m) \<subseteq> set m \<union> (fst ` set ps) \<times> {h}"
proof (induction ps arbitrary: m)
  case Nil
  then show ?case by simp
next
  case (Cons p ps)
  obtain k pats where p: "p = (k, pats)" by (cases p)
  have "set (scanEntry h p m) \<subseteq> insert (k, h) (set m)"
    using set_update_subset [of k h m] by (auto simp: scanEntry_def p)
  with Cons.IH [of "scanEntry h p m"] show ?case
    by (auto simp: p)
qed

lemma set_fold_scanHeader:
  "set (fold scanHeader hs m) \<subseteq> set m \<union> (fst ` set fieldPatterns) \<times> set hs"
proof (induction hs arbitrary: m)
  case Nil
  then show ?case by simp
next
  case (Cons h hs)
  have "set (scanHeader h m) \<subseteq> set m \<union> (fst ` set fieldPatterns) \<times> {h}"
    unfolding scanHeader_def by (rule set_fold_scanEntry)
  with Cons.IH [of "scanHeader h m"] show ?case
    by auto
qed

text \<open>
  C2, as stated, fails: on the headers First Name, Last Name, E-mail, Mobile Phone,
  LinkedIn the result assigns a sixth standard field, because the normalized header
  \<open>mobile phone\<close> contains the pattern \<open>phone\<close> of \<open>otherPhone\<close>.
\<close>

theorem detectFields_table_counterexample:
  "map_of (detectFields [''First Name'', ''Last Name'', ''E-mail'', ''Mobile Phone'', ''LinkedIn''])
     ''otherPhone'' = Some ''Mobile Phone''"
  by code_simp

text \<open>
  C2, amended: on these five headers \<open>detectFields\<close> returns exactly the five assignments
  of the claim together with \<open>otherPhone\<close> assigned to Mobile Phone, and nothing else.
\<close>

theorem detectFields_table:
  "detectFields [''First Name'', ''Last Name'', ''E-mail'', ''Mobile Phone'', ''LinkedIn''] =
     [(''firstName'', ''First Name''), (''lastName'', ''Last Name''), (''email'', ''E-mail''),
      (''mobilePhone'', ''Mobile Phone''), (''otherPhone'', ''Mobile Phone''),
      (''personLinkedinUrl'', ''LinkedIn'')]"
  by code_simp

text \<open>
  C3, as stated, fails: on the headers Company, Company LinkedIn Url the field \<open>company\<close>
  is not assigned Company, and \<open>company\<close> and \<open>companyLinkedinUrl\<close> are assigned the same
  header. The second header, normalized, contains the pattern \<open>company\<close> and overwrites
  the first assignment.
\<close>

theorem detectFields_specificity_counterexample:
  "map_of (detectFields [''Company'', ''Company LinkedIn Url'']) ''company''
     \<noteq> Some ''Company'' \<and>
   map_of (detectFields [''Company'', ''Company LinkedIn Url'']) ''company''
     = map_of (detectFields [''Company'', ''Company LinkedIn Url'']) ''companyLinkedinUrl''"
  by code_simp

text \<open>
  C3, amended: on these two headers \<open>detectFields\<close> assigns \<open>companyLinkedinUrl\<close> to
  Company LinkedIn Url, and assigns \<open>company\<close>, \<open>personLinkedinUrl\<close> and \<open>website\<close> to that
  same header; no field is assigned Company.
\<close>

theorem detectFields_specificity:
  "detectFields [''Company'', ''Company LinkedIn Url''] =
     [(''company'', ''Company LinkedIn Url''),
      (''personLinkedinUrl'', ''Company LinkedIn Url''),
      (''companyLinkedinUrl'', ''Company LinkedIn Url''),
      (''website'', ''Company LinkedIn Url'')]"
  by code_simp

text \<open>
  C8: when at least one header matches the pattern list of a standard field (so in
  particular when more than one does), \<open>detectFields\<close> assigns to that field the last
  matching header of the list.
\<close>

theorem detectFields_last_match_wins:
  assumes "map_of fieldPatterns field = Some patterns"
    and "filter (headerMatches patterns) headers \<noteq> []"
  shows "map_of (detectFields headers) field
           = Some (last (filter (headerMatches patterns) headers))"
  using assms unfolding detectFields_def
  by (simp add: map_of_fold_scanHeader split: list.splits)

theorem detectFields_last_match_wins_witness:
  "map_of fieldPatterns ''otherPhone''
     = Some [''phone'', ''other phone'', ''telephone'', ''other_phone''] \<and>
   filter (headerMatches [''phone'', ''other phone'', ''telephone'', ''other_phone''])
     [''Phone'', ''Other Phone'', ''Name''] = [''Phone'', ''Other Phone''] \<and>
   map_of (detectFields [''Phone'', ''Other Phone'', ''Name'']) ''otherPhone''
     = Some ''Other Phone''"
proof -
  have h1: "map_of fieldPatterns ''otherPhone''
              = Some [''phone'', ''other phone'', ''telephone'', ''other_phone'']"
    by code_simp
  have h2: "filter (headerMatches [''phone'', ''other phone'', ''telephone'', ''other_phone''])
              [''Phone'', ''Other Phone'', ''Name''] = [''Phone'', ''Other Phone'']"
    by code_simp
  have h3: "filter (headerMatches [''phone'', ''other phone'', ''telephone'', ''other_phone''])
              [''Phone'', ''Other Phone'', ''Name''] \<noteq> []"
    unfolding h2 by simp
  have "map_of (detectFields [''Phone'', ''Other Phone'', ''Name'']) ''otherPhone''
          = Some (last [''Phone'', ''Other Phone''])"
    using detectFields_last_match_wins [OF h1 h3] unfolding h2 .
  then have h4: "map_of (detectFields [''Phone'', ''Other Phone'', ''Name'']) ''otherPhone''
          = Some ''Other Phone''"
    by simp
  from h1 h2 h4 show ?thesis by blast
qed

text \<open>
  C9: every key of the mapping \<open>detectFields\<close> returns is one of the eleven standard
  field identifiers, and every value is one of the input headers itself, not its
  normalized form.
\<close>

theorem detectFields_keys_and_values:
  "fst ` set (detectFields headers) \<subseteq> set fieldMappingSchema \<and>
   snd ` set (detectFields headers) \<subseteq> set headers"
proof -
  have "set (detectFields headers) \<subseteq> (fst ` set fieldPatterns) \<times> set headers"
    using set_fold_scanHeader [of headers "[]"] by (simp add: detectFields_def)
  moreover have "fst ` set fieldPatterns = set fieldMappingSchema"
    using fieldPatterns_keys by (metis set_map)
  ultimately show ?thesis by auto
qed

section \<open>Properties of objects\<close>

lemma map_of_setProperty:
  "k \<noteq> ''__proto__'' \<Longrightarrow>
   map_of (setProperty k v obj) k' = (if k' = k then Some v else map_of obj k')"
  by (simp add: setProperty_def update_conv')

lemma objectEntries_no_index:
  assumes "\<forall>p\<in>set obj. \<not> isArrayIndex (fst p)"
  shows "objectEntries obj = obj"
proof -
  have a: "filter (\<lambda>(k, v). isArrayIndex k) obj = []"
    using assms by (auto simp: filter_empty_conv)
  have b: "filter (\<lambda>(k, v). \<not> isArrayIndex k) obj = obj"
    using assms by (auto simp: filter_id_conv)
  show ?thesis
    by (simp add: objectEntries_def a b)
qed

lemma fieldMappingSchema_no_index: "\<forall>k\<in>set fieldMappingSchema. \<not> isArrayIndex k"
  by (simp add: fieldMappingSchema_def isArrayIndex_def isDigit_def)

lemma fieldMappingSchema_plain_keys:
  "''__proto__'' \<notin> set fieldMappingSchema"
  "''campaignId'' \<notin> set fieldMappingSchema"
  "''encryptedData'' \<notin> set fieldMappingSchema"
  by (simp_all add: fieldMappingSchema_def)

lemma contactColumns_schema: "contactColumns = fieldMappingSchema"
  by (simp add: contactColumns_def fieldMappingSchema_def)

section \<open>Properties of strings\<close>

lemma split_not_Nil: "split sep s \<noteq> []"
  by (induction s) (auto split: list.splits)

lemma split_append_sep: "split sep (a @ sep # b) = split sep a @ split sep b"
proof (induction a)
  case Nil
  then show ?case by simp
next
  case (Cons c a)
  obtain p ps where ps: "split sep a = p # ps"
    using split_not_Nil [of sep a] by (cases "split sep a") auto
  show ?case
    by (simp add: Cons.IH ps)
qed

lemma split_no_sep: "sep \<notin> set s \<Longrightarrow> split sep s = [s]"
  by (induction s) auto

lemma split_prefix: "sep \<notin> set i \<Longrightarrow> split sep (i @ sep # c) = i # split sep c"
  by (simp add: split_append_sep split_no_sep)

lemma split_first: "\<exists>rest. split sep c = takeWhile (\<lambda>x. x \<noteq> sep) c # rest"
proof (induction c)
  case Nil
  then show ?case by simp
next
  case (Cons a c)
  then obtain rest where "split sep c = takeWhile (\<lambda>x. x \<noteq> sep) c # rest" ..
  then show ?case by simp
qed

lemma split_all_chars:
  "(\<forall>line\<in>set (split sep s). \<forall>c\<in>set line. P c) \<longleftrightarrow> (\<forall>c\<in>set s. c \<noteq> sep \<longrightarrow> P c)"
proof (induction s)
  case Nil
  then show ?case by simp
next
  case (Cons a s)
  obtain p ps where ps: "split sep s = p # ps"
    using split_not_Nil [of sep s] by (cases "split sep s") auto
  show ?case
    using Cons.IH by (auto simp: ps)
qed

lemma dropWhile_all: "(\<forall>x\<in>set (dropWhile P s). P x) \<longleftrightarrow> (\<forall>x\<in>set s. P x)"
  by (induction s) auto

lemma trim_Nil_iff: "trim s = [] \<longleftrightarrow> (\<forall>c\<in>set s. isWhiteSpace c)"
  by (simp add: trim_def dropWhile_eq_Nil_conv dropWhile_all)

section \<open>Properties of field mapping validation\<close>

lemma parseOptionalString_Inl:
  "(parseOptionalString x = Inl e) \<longleftrightarrow> (\<exists>v. x = Some v \<and> (\<forall>s. v \<noteq> JString s))"
proof (cases x)
  case None
  then show ?thesis by simp
next
  case (Some v)
  then show ?thesis by (cases v; cases e) simp_all
qed

lemma parseOptionalString_Inr:
  assumes "parseOptionalString x = Inr r"
  shows "r = (case x of Some (JString s) \<Rightarrow> Some s | _ \<Rightarrow> None)"
proof (cases x)
  case None
  with assms show ?thesis by simp
next
  case (Some v)
  with assms show ?thesis by (cases v) simp_all
qed

lemma parseShape_Inl:
  "(parseShape ks obj = Inl e) \<longleftrightarrow>
   (\<exists>k\<in>set ks. \<exists>v. map_of obj k = Some v \<and> (\<forall>s. v \<noteq> JString s))"
proof (induction ks)
  case Nil
  then show ?case by simp
next
  case (Cons k ks)
  show ?case
  proof (cases "parseOptionalString (map_of obj k)")
    case (Inl e')
    then have "\<exists>v. map_of obj k = Some v \<and> (\<forall>s. v \<noteq> JString s)"
      by (simp add: parseOptionalString_Inl)
    with Inl show ?thesis by (cases e; cases e') auto
  next
    case (Inr r)
    then have "\<not> (\<exists>v. map_of obj k = Some v \<and> (\<forall>s. v \<noteq> JString s))"
      using parseOptionalString_Inl [of "map_of obj k"] by (metis Inl_Inr_False)
    with Inr Cons.IH show ?thesis by (auto split: sum.splits)
  qed
qed

lemma parseShape_Inr:
  "parseShape ks obj = Inr fm \<Longrightarrow> distinct ks \<Longrightarrow>
   fst ` set fm \<subseteq> set ks \<and>
   map_of fm k =
     (if k \<in> set ks then (case map_of obj k of Some (JString s) \<Rightarrow> Some s | _ \<Rightarrow> None)
      else None)"
proof (induction ks arbitrary: fm)
  case Nil
  then show ?case by simp
next
  case (Cons a ks)
  from Cons.prems(1) obtain r rest where
    r: "parseOptionalString (map_of obj a) = Inr r" and
    rest: "parseShape ks obj = Inr rest" and
    fm: "fm = (case r of None \<Rightarrow> rest | Some s \<Rightarrow> (a, s) # rest)"
    by (auto split: sum.splits)
  from Cons.prems(2) have d: "distinct ks" and a: "a \<notin> set ks" by auto
  note IH = Cons.IH [OF rest d]
  from IH a have none: "map_of rest a = None"
    by (auto simp: map_of_eq_None_iff)
  have rv: "r = (case map_of obj a of Some (JString s) \<Rightarrow> Some s | _ \<Rightarrow> None)"
    using r by (rule parseOptionalString_Inr)
  show ?case
  proof (cases r)
    case None
    have fm': "fm = rest" using fm None by simp
    have rv': "(case map_of obj a of Some (JString s) \<Rightarrow> Some s | _ \<Rightarrow> None) = None"
      using rv None by simp
    show ?thesis using IH none a by (auto simp: fm' rv')
  next
    case (Some s)
    have fm': "fm = (a, s) # rest" using fm Some by simp
    have rv': "(case map_of obj a of Some (JString s) \<Rightarrow> Some s | _ \<Rightarrow> None) = Some s"
      using rv Some by simp
    show ?thesis using IH none a by (auto simp: fm' rv')
  qed
qed

lemma distinct_fieldMappingSchema: "distinct fieldMappingSchema"
  by (simp add: fieldMappingSchema_def)

lemma parseShape_distinct:
  "parseShape ks obj = Inr fm \<Longrightarrow> distinct ks \<Longrightarrow> distinct (map fst fm)"
proof (induction ks arbitrary: fm)
  case Nil
  then show ?case by simp
next
  case (Cons a ks)
  from Cons.prems(1) obtain r rest where
    rest: "parseShape ks obj = Inr rest" and
    fm: "fm = (case r of None \<Rightarrow> rest | Some s \<Rightarrow> (a, s) # rest)"
    by (auto split: sum.splits)
  from Cons.prems(2) have d: "distinct ks" and a: "a \<notin> set ks" by auto
  have keys: "fst ` set rest \<subseteq> set ks"
    using parseShape_Inr [OF rest d] by (rule conjunct1)
  with a have "a \<notin> fst ` set rest" by blast
  with Cons.IH [OF rest d] show ?case
    by (cases r) (simp_all add: fm)
qed

text \<open>
  A mapping that passed validation has distinct keys: the hypothesis of the row
  transform's property holds for every mapping the upload handler uses.
\<close>

lemma fieldMappingSchema_parse_distinct:
  assumes "fieldMappingSchema_parse raw = Inr mapping"
  shows "distinct (map fst mapping)"
proof (cases raw)
  case (JObject obj)
  with assms have "parseShape fieldMappingSchema obj = Inr mapping" by simp
  then show ?thesis
    using distinct_fieldMappingSchema by (rule parseShape_distinct)
qed (insert assms, simp_all)

text \<open>
  C4, as stated, fails: validation is \<open>fieldMappingSchema.parse\<close> alone. It never sees
  the parsed headers, keeps the values \<open>skip\<close> and \<open>none\<close> and a value that names no
  column, and strips an unknown key without failing.
\<close>

theorem fieldMappingSchema_parse_counterexample:
  "fieldMappingSchema_parse
     (JObject [(''firstName'', JString ''skip''), (''email'', JString ''none''),
               (''title'', JString ''No Such Column''), (''nickname'', JString ''Name'')])
   = Inr [(''firstName'', ''skip''), (''title'', ''No Such Column''), (''email'', ''none'')]"
  by code_simp

text \<open>
  C4, amended: for every submitted mapping object, validation fails with a \<open>ZodError\<close>
  exactly when one of the eleven standard-field keys holds a value that is not a string;
  otherwise it returns, for each standard-field key present, the submitted string
  unchanged (sentinels and names of missing columns included), and drops every other key.
\<close>

theorem fieldMappingSchema_parse_spec:
  "(fieldMappingSchema_parse (JObject obj) = Inl ZodError \<longleftrightarrow>
      (\<exists>k\<in>set fieldMappingSchema. \<exists>v. map_of obj k = Some v \<and> (\<forall>s. v \<noteq> JString s))) \<and>
   (\<forall>mapping. fieldMappingSchema_parse (JObject obj) = Inr mapping \<longrightarrow>
      (\<forall>k. map_of mapping k =
         (if k \<in> set fieldMappingSchema
          then (case map_of obj k of Some (JString s) \<Rightarrow> Some s | _ \<Rightarrow> None)
          else None)))"
  using parseShape_Inr [OF _ distinct_fieldMappingSchema, of obj]
  by (simp add: parseShape_Inl)

theorem fieldMappingSchema_parse_spec_witness:
  "fieldMappingSchema_parse
     (JObject [(''firstName'', JString ''skip''), (''nickname'', JString ''Name'')])
     = Inr [(''firstName'', ''skip'')] \<and>
   map_of [(''firstName'', ''skip'')] ''firstName'' = Some ''skip'' \<and>
   map_of [(''firstName'', ''skip'')] ''nickname'' = None \<and>
   fieldMappingSchema_parse (JObject [(''email'', JNumber 7)]) = Inl ZodError"
proof -
  have p: "fieldMappingSchema_parse
             (JObject [(''firstName'', JString ''skip''), (''nickname'', JString ''Name'')])
           = Inr [(''firstName'', ''skip'')]"
    by code_simp
  have k: "''email'' \<in> set fieldMappingSchema"
    by (simp add: fieldMappingSchema_def)
  have bad: "\<exists>k\<in>set fieldMappingSchema. \<exists>v. map_of [(''email'', JNumber 7)] k = Some v \<and>
               (\<forall>s. v \<noteq> JString s)"
    using k by (intro bexI [of _ "''email''"]) simp_all
  have e: "fieldMappingSchema_parse (JObject [(''email'', JNumber 7)]) = Inl ZodError"
    using fieldMappingSchema_parse_spec [of "[(''email'', JNumber 7)]"] bad by blast
  from p e show ?thesis by simp
qed

section \<open>Properties of the row transform\<close>

lemma fieldMappingSchema_parse_keys:
  assumes "fieldMappingSchema_parse raw = Inr mapping"
  shows "fst ` set mapping \<subseteq> set fieldMappingSchema"
proof (cases raw)
  case (JObject obj)
  with assms have "parseShape fieldMappingSchema obj = Inr mapping" by simp
  then show ?thesis
    using parseShape_Inr [OF _ distinct_fieldMappingSchema] by blast
qed (insert assms, simp_all)

lemma map_of_fold_mapField:
  "distinct (map fst fm) \<Longrightarrow> ''__proto__'' \<notin> fst ` set fm \<Longrightarrow>
   map_of (fold (mapField row) fm acc) f =
     (case map_of fm f of
        None \<Rightarrow> map_of acc f
      | Some c \<Rightarrow>
          if c \<noteq> [] \<and> c \<noteq> ''skip'' \<and> (\<exists>v. getProperty row c = Some v \<and> truthy v)
          then getProperty row c else map_of acc f)"
proof (induction fm arbitrary: acc)
  case Nil
  then show ?case by simp
next
  case (Cons p fm)
  obtain k c where p: "p = (k, c)" by (cases p)
  from Cons.prems have d: "distinct (map fst fm)" and k: "k \<notin> fst ` set fm"
    and np: "''__proto__'' \<notin> fst ` set fm" and kp: "k \<noteq> ''__proto__''"
    by (auto simp: p)
  from k have none: "map_of fm k = None"
    by (simp add: map_of_eq_None_iff)
  show ?case
    using Cons.IH [OF d np] none kp
    by (auto simp: p mapField_def map_of_setProperty split: option.splits)
qed

lemma map_of_mapFields:
  assumes "fieldMappingSchema_parse raw = Inr mapping"
  shows "map_of (mapFields row mapping) f =
     (case map_of mapping f of
        None \<Rightarrow> None
      | Some c \<Rightarrow>
          if c \<noteq> [] \<and> c \<noteq> ''skip'' \<and> (\<exists>v. getProperty row c = Some v \<and> truthy v)
          then getProperty row c else None)"
proof -
  note keys = fieldMappingSchema_parse_keys [OF assms]
  have e: "objectEntries mapping = mapping"
    using keys fieldMappingSchema_no_index by (intro objectEntries_no_index) auto
  have np: "''__proto__'' \<notin> fst ` set mapping"
    using keys fieldMappingSchema_plain_keys(1) by auto
  have fm: "map_of (mapFields row mapping) f =
     (case map_of mapping f of
        None \<Rightarrow> map_of [] f
      | Some c \<Rightarrow>
          if c \<noteq> [] \<and> c \<noteq> ''skip'' \<and> (\<exists>v. getProperty row c = Some v \<and> truthy v)
          then getProperty row c else map_of [] f)"
    unfolding mapFields_def e
    by (rule map_of_fold_mapField [OF fieldMappingSchema_parse_distinct [OF assms] np])
  show ?thesis
    unfolding fm by (cases "map_of mapping f") (simp_all only: option.case map_of.simps)
qed

lemma getProperty_own:
  "getProperty row c \<noteq> Some Object \<Longrightarrow> getProperty row c = map_option Str (map_of row c)"
  by (auto simp: getProperty_def split: option.splits if_splits)

lemma parseOptionalText_Inl:
  "(parseOptionalText x = Inl e) \<longleftrightarrow> x = Some Object"
proof (cases x)
  case None
  then show ?thesis by simp
next
  case (Some v)
  then show ?thesis by (cases v; cases e) simp_all
qed

lemma parseOptionalText_Inr:
  assumes "parseOptionalText x = Inr r"
  shows "r = (case x of Some (Str s) \<Rightarrow> Some s | _ \<Rightarrow> None)"
proof (cases x)
  case None
  with assms show ?thesis by simp
next
  case (Some v)
  with assms show ?thesis by (cases v) simp_all
qed

lemma parseColumns_total:
  assumes "\<forall>k. map_of obj k \<noteq> Some Object"
  shows "\<exists>vals. parseColumns ks obj = Inr vals"
proof (induction ks)
  case Nil
  then show ?case by simp
next
  case (Cons k ks)
  then obtain rest where rest: "parseColumns ks obj = Inr rest" ..
  have "parseOptionalText (map_of obj k) \<noteq> Inl ZodError"
    using assms by (simp add: parseOptionalText_Inl)
  then obtain r where r: "parseOptionalText (map_of obj k) = Inr r"
    by (cases "parseOptionalText (map_of obj k)") (auto intro: zod_error.exhaust)
  show ?case
    by (simp add: r rest)
qed

lemma parseColumns_Inr:
  "parseColumns ks obj = Inr vals \<Longrightarrow> distinct ks \<Longrightarrow>
   fst ` set vals \<subseteq> set ks \<and>
   map_of vals k =
     (if k \<in> set ks then (case map_of obj k of Some (Str s) \<Rightarrow> Some s | _ \<Rightarrow> None)
      else None)"
proof (induction ks arbitrary: vals)
  case Nil
  then show ?case by simp
next
  case (Cons a ks)
  from Cons.prems(1) obtain r rest where
    r: "parseOptionalText (map_of obj a) = Inr r" and
    rest: "parseColumns ks obj = Inr rest" and
    vals: "vals = (case r of None \<Rightarrow> rest | Some s \<Rightarrow> (a, s) # rest)"
    by (auto split: sum.splits)
  from Cons.prems(2) have d: "distinct ks" and a: "a \<notin> set ks" by auto
  note IH = Cons.IH [OF rest d]
  from IH a have none: "map_of rest a = None"
    by (auto simp: map_of_eq_None_iff)
  have rv: "r = (case map_of obj a of Some (Str s) \<Rightarrow> Some s | _ \<Rightarrow> None)"
    using r by (rule parseOptionalText_Inr)
  show ?case
  proof (cases r)
    case None
    have vals': "vals = rest" using vals None by simp
    have rv': "(case map_of obj a of Some (Str s) \<Rightarrow> Some s | _ \<Rightarrow> None) = None"
      using rv None by simp
    show ?thesis using IH none a by (auto simp: vals' rv')
  next
    case (Some s)
    have vals': "vals = (a, s) # rest" using vals Some by simp
    have rv': "(case map_of obj a of Some (Str s) \<Rightarrow> Some s | _ \<Rightarrow> None) = Some s"
      using rv Some by simp
    show ?thesis using IH none a by (auto simp: vals' rv')
  qed
qed

text \<open>
  The slip beside the guard: the lookup \<open>row[csvColumn]\<close> also finds what a plain object
  inherits. A validated mapping that names \<open>constructor\<close> sets the field to a function,
  \<open>insertContactSchema.parse\<close> throws, and the upload fails after the campaign row was
  created.
\<close>

lemma mapFields_inherited_property:
  "mapFields [(''Name'', ''Ann'')] [(''firstName'', ''constructor'')] = [(''firstName'', Object)] \<and>
   importCampaign exampleEnvironment
     \<lparr>req_file = Some exampleFile, campaignName = Some ''Q2 Leads'',
      fieldMappingRaw = Some (JObject [(''firstName'', JString ''constructor'')])\<rparr>
     exampleDatabase
   = (Failure 400 ''Invalid data format'',
      snd (createCampaign
             \<lparr>name = ''Q2 Leads'', fileName = ''q1.csv'', recordCount = 1, fileSize = 9,
              fieldMapping = [(''firstName'', ''constructor'')]\<rparr> exampleDatabase))"
  by code_simp

text \<open>
  C1, as stated, fails: a mapping that assigns the empty column name to a field leaves
  the field absent although the row has a non-empty cell under that name (a CSV header
  line can have an empty header cell), because the guard \<open>csvColumn &&\<close> rejects the
  empty string before the skip test.
\<close>

theorem mapFields_counterexample:
  "map_of [(''firstName'', ([] :: string))] ''firstName'' = Some [] \<and>
   ([] :: string) \<noteq> ''skip'' \<and>
   getProperty [([], ''x''), (''Name'', ''Ann'')] [] = Some (Str ''x'') \<and>
   ''x'' \<noteq> ([] :: string) \<and>
   map_of (mapFields [([], ''x''), (''Name'', ''Ann'')] [(''firstName'', [])]) ''firstName''
     = None"
  by code_simp

text \<open>
  C1, amended: for every parsed row and every confirmed (validated) field mapping, and
  for source columns whose lookup in the row does not fall through to a property that
  every plain object inherits: the row transform sets a standard field to
  \<open>row[sourceColumn]\<close> exactly when the mapping assigns to it a source column that is
  neither the empty string nor the skip sentinel and \<open>row[sourceColumn]\<close> is a non-empty
  string; otherwise the field is absent. No field is ever the empty string. When no
  mapped column falls through to an inherited property, the contact record is built and
  reading back its fields returns exactly those non-empty cells.
\<close>

theorem mapFields_spec:
  assumes "fieldMappingSchema_parse raw = Inr mapping"
  shows
    "(\<forall>standardField csvColumn.
        map_of mapping standardField = Some csvColumn \<and>
        getProperty row csvColumn \<noteq> Some Object \<longrightarrow>
        map_of (mapFields row mapping) standardField =
          (if csvColumn \<noteq> [] \<and> csvColumn \<noteq> ''skip'' then
             (case map_of row csvColumn of
                None \<Rightarrow> None
              | Some cell \<Rightarrow> if cell \<noteq> [] then Some (Str cell) else None)
           else None)) \<and>
     (\<forall>standardField.
        map_of mapping standardField = None \<longrightarrow>
        map_of (mapFields row mapping) standardField = None) \<and>
     (\<forall>standardField. map_of (mapFields row mapping) standardField \<noteq> Some (Str [])) \<and>
     ((\<forall>csvColumn\<in>snd ` set mapping. getProperty row csvColumn \<noteq> Some Object) \<longrightarrow>
      (\<exists>contactRecord.
         toInsertContact env cid mapping i row = Inr contactRecord \<and>
         campaignId contactRecord = cid \<and>
         (\<forall>standardField.
            map_of (fieldValues contactRecord) standardField =
              (case map_of mapping standardField of
                 None \<Rightarrow> None
               | Some csvColumn \<Rightarrow>
                   if csvColumn \<noteq> [] \<and> csvColumn \<noteq> ''skip'' then
                     (case map_of row csvColumn of
                        None \<Rightarrow> None
                      | Some cell \<Rightarrow> if cell \<noteq> [] then Some cell else None)
                   else None))))"
proof -
  note m = map_of_mapFields [OF assms, of row]
  note keys = fieldMappingSchema_parse_keys [OF assms]
  have p1: "map_of (mapFields row mapping) f =
          (if c \<noteq> [] \<and> c \<noteq> ''skip'' then
             (case map_of row c of
                None \<Rightarrow> None
              | Some cell \<Rightarrow> if cell \<noteq> [] then Some (Str cell) else None)
           else None)"
    if "map_of mapping f = Some c" and "getProperty row c \<noteq> Some Object" for f c
    using that(1) getProperty_own [OF that(2)]
    by (cases "map_of row c") (simp_all add: m)
  have p2: "map_of (mapFields row mapping) f = None" if "map_of mapping f = None" for f
    using that by (simp add: m)
  have p3: "map_of (mapFields row mapping) f \<noteq> Some (Str [])" for f
    by (auto simp: m split: option.splits)
  have p4: "\<exists>contactRecord.
         toInsertContact env cid mapping i row = Inr contactRecord \<and>
         campaignId contactRecord = cid \<and>
         (\<forall>standardField.
            map_of (fieldValues contactRecord) standardField =
              (case map_of mapping standardField of
                 None \<Rightarrow> None
               | Some csvColumn \<Rightarrow>
                   if csvColumn \<noteq> [] \<and> csvColumn \<noteq> ''skip'' then
                     (case map_of row csvColumn of
                        None \<Rightarrow> None
                      | Some cell \<Rightarrow> if cell \<noteq> [] then Some cell else None)
                   else None))"
    if own: "\<forall>csvColumn\<in>snd ` set mapping. getProperty row csvColumn \<noteq> Some Object"
  proof -
    define contactData where "contactData = mapFields row mapping"
    have col: "getProperty row c \<noteq> Some Object" if "map_of mapping f = Some c" for f c
    proof -
      from that have "(f, c) \<in> set mapping" by (rule map_of_SomeD)
      then have "c \<in> snd ` set mapping" by force
      with own show ?thesis by blast
    qed
    have noObject: "map_of contactData f \<noteq> Some Object" for f
    proof (cases "map_of mapping f")
      case None
      then show ?thesis by (simp add: contactData_def p2)
    next
      case (Some c)
      show ?thesis
        unfolding contactData_def p1 [OF Some col [OF Some]]
        by (simp split: option.splits)
    qed
    have unmapped: "map_of contactData f = None" if "f \<notin> set fieldMappingSchema" for f
    proof -
      from that keys have "f \<notin> fst ` set mapping" by blast
      then have "map_of mapping f = None" by (simp add: map_of_eq_None_iff)
      then show ?thesis by (simp add: contactData_def p2)
    qed
    have c1: "map_of contactData ''campaignId'' = None"
      by (rule unmapped) (rule fieldMappingSchema_plain_keys)
    have c2: "map_of contactData ''encryptedData'' = None"
      by (rule unmapped) (rule fieldMappingSchema_plain_keys)
    from parseColumns_total [of contactData contactColumns] noObject
    obtain vals where vals: "parseColumns contactColumns contactData = Inr vals"
      by blast
    have dc: "distinct contactColumns"
      by (simp add: contactColumns_schema distinct_fieldMappingSchema)
    have look: "map_of vals f =
        (if f \<in> set fieldMappingSchema
         then (case map_of contactData f of Some (Str s) \<Rightarrow> Some s | _ \<Rightarrow> None) else None)"
      for f
      using parseColumns_Inr [OF vals dc, of f] by (simp add: contactColumns_schema)
    have res: "toInsertContact env cid mapping i row =
        Inr \<lparr>campaignId = cid,
             encryptedData = encrypt (cipher env) (randomBytes env i) (stringify env contactData),
             fieldValues = vals\<rparr>"
      by (simp add: toInsertContact_def Let_def insertContactSchema_parse_def
          contactData_def [symmetric] c1 c2 vals)
    have fields: "map_of vals f =
        (case map_of mapping f of
           None \<Rightarrow> None
         | Some c \<Rightarrow>
             if c \<noteq> [] \<and> c \<noteq> ''skip'' then
               (case map_of row c of
                  None \<Rightarrow> None
                | Some cell \<Rightarrow> if cell \<noteq> [] then Some cell else None)
             else None)" for f
    proof (cases "map_of mapping f")
      case None
      then have "map_of contactData f = None" by (simp add: contactData_def p2)
      with None show ?thesis by (simp add: look)
    next
      case (Some c)
      then have "(f, c) \<in> set mapping" by (rule map_of_SomeD)
      then have "f \<in> fst ` set mapping" by force
      with keys have fk: "f \<in> set fieldMappingSchema" by blast
      have "map_of contactData f =
          (if c \<noteq> [] \<and> c \<noteq> ''skip'' then
             (case map_of row c of
                None \<Rightarrow> None
              | Some cell \<Rightarrow> if cell \<noteq> [] then Some (Str cell) else None)
           else None)"
        unfolding contactData_def by (rule p1 [OF Some col [OF Some]])
      with Some fk show ?thesis
        by (simp add: look split: option.splits)
    qed
    show ?thesis
      by (intro exI [of _ "\<lparr>campaignId = cid,
             encryptedData = encrypt (cipher env) (randomBytes env i) (stringify env contactData),
             fieldValues = vals\<rparr>"] conjI allI res) (simp_all add: fields)
  qed
  show ?thesis
  proof (intro conjI allI impI)
    fix standardField csvColumn
    assume "map_of mapping standardField = Some csvColumn \<and>
        getProperty row csvColumn \<noteq> Some Object"
    then show "map_of (mapFields row mapping) standardField =
          (if csvColumn \<noteq> [] \<and> csvColumn \<noteq> ''skip'' then
             (case map_of row csvColumn of
                None \<Rightarrow> None
              | Some cell \<Rightarrow> if cell \<noteq> [] then Some (Str cell) else None)
           else None)"
      using p1 by blast
  next
    fix standardField
    assume "map_of mapping standardField = None"
    then show "map_of (mapFields row mapping) standardField = None" by (rule p2)
  next
    fix standardField
    show "map_of (mapFields row mapping) standardField \<noteq> Some (Str [])" by (rule p3)
  next
    assume "\<forall>csvColumn\<in>snd ` set mapping. getProperty row csvColumn \<noteq> Some Object"
    then show "\<exists>contactRecord.
         toInsertContact env cid mapping i row = Inr contactRecord \<and>
         campaignId contactRecord = cid \<and>
         (\<forall>standardField.
            map_of (fieldValues contactRecord) standardField =
              (case map_of mapping standardField of
                 None \<Rightarrow> None
               | Some csvColumn \<Rightarrow>
                   if csvColumn \<noteq> [] \<and> csvColumn \<noteq> ''skip'' then
                     (case map_of row csvColumn of
                        None \<Rightarrow> None
                      | Some cell \<Rightarrow> if cell \<noteq> [] then Some cell else None)
                   else None))"
      by (rule p4)
  qed
qed

theorem mapFields_spec_witness:
  "fieldMappingSchema_parse
     (JObject [(''firstName'', JString ''Name''), (''email'', JString ''Mail''),
               (''title'', JString ''skip'')])
     = Inr [(''firstName'', ''Name''), (''title'', ''skip''), (''email'', ''Mail'')] \<and>
   getProperty [(''Name'', ''Ann''), (''Mail'', ''''), (''skip'', ''x'')] ''Name'' \<noteq> Some Object \<and>
   map_of (mapFields [(''Name'', ''Ann''), (''Mail'', ''''), (''skip'', ''x'')]
             [(''firstName'', ''Name''), (''title'', ''skip''), (''email'', ''Mail'')])
     ''firstName'' = Some (Str ''Ann'') \<and>
   map_of (mapFields [(''Name'', ''Ann''), (''Mail'', ''''), (''skip'', ''x'')]
             [(''firstName'', ''Name''), (''title'', ''skip''), (''email'', ''Mail'')])
     ''email'' = None \<and>
   map_of (mapFields [(''Name'', ''Ann''), (''Mail'', ''''), (''skip'', ''x'')]
             [(''firstName'', ''Name''), (''title'', ''skip''), (''email'', ''Mail'')])
     ''title'' = None \<and>
   (\<exists>contactRecord.
      toInsertContact exampleEnvironment 1
        [(''firstName'', ''Name''), (''title'', ''skip''), (''email'', ''Mail'')] 0
        [(''Name'', ''Ann''), (''Mail'', ''''), (''skip'', ''x'')] = Inr contactRecord \<and>
      map_of (fieldValues contactRecord) ''firstName'' = Some ''Ann'' \<and>
      map_of (fieldValues contactRecord) ''email'' = None)"
proof -
  let ?row = "[(''Name'', ''Ann''), (''Mail'', ''''), (''skip'', ''x'')]"
  let ?mapping = "[(''firstName'', ''Name''), (''title'', ''skip''), (''email'', ''Mail'')]"
  have h: "fieldMappingSchema_parse
     (JObject [(''firstName'', JString ''Name''), (''email'', JString ''Mail''),
               (''title'', JString ''skip'')]) = Inr ?mapping"
    by (simp add: fieldMappingSchema_def)
  note t = mapFields_spec [OF h, where row = ?row and env = exampleEnvironment
      and cid = 1 and i = 0]
  have o1: "getProperty ?row ''Name'' \<noteq> Some Object"
    and o2: "getProperty ?row ''Mail'' \<noteq> Some Object"
    and o3: "getProperty ?row ''skip'' \<noteq> Some Object"
    by (simp_all add: getProperty_def)
  have m1: "map_of ?mapping ''firstName'' = Some ''Name''"
    and m2: "map_of ?mapping ''email'' = Some ''Mail''"
    and m3: "map_of ?mapping ''title'' = Some ''skip''"
    by simp_all
  have "map_of (mapFields ?row ?mapping) ''firstName'' =
          (if ''Name'' \<noteq> [] \<and> ''Name'' \<noteq> ''skip'' then
             (case map_of ?row ''Name'' of
                None \<Rightarrow> None
              | Some cell \<Rightarrow> if cell \<noteq> [] then Some (Str cell) else None)
           else None)"
    by (rule t [THEN conjunct1, THEN spec, THEN spec, THEN mp, OF conjI [OF m1 o1]])
  also have "\<dots> = Some (Str ''Ann'')" by simp
  finally have r1: "map_of (mapFields ?row ?mapping) ''firstName'' = Some (Str ''Ann'')" .
  have "map_of (mapFields ?row ?mapping) ''email'' =
          (if ''Mail'' \<noteq> [] \<and> ''Mail'' \<noteq> ''skip'' then
             (case map_of ?row ''Mail'' of
                None \<Rightarrow> None
              | Some cell \<Rightarrow> if cell \<noteq> [] then Some (Str cell) else None)
           else None)"
    by (rule t [THEN conjunct1, THEN spec, THEN spec, THEN mp, OF conjI [OF m2 o2]])
  also have "\<dots> = None" by simp
  finally have r2: "map_of (mapFields ?row ?mapping) ''email'' = None" .
  have "map_of (mapFields ?row ?mapping) ''title'' =
          (if ''skip'' \<noteq> [] \<and> ''skip'' \<noteq> ''skip'' then
             (case map_of ?row ''skip'' of
                None \<Rightarrow> None
              | Some cell \<Rightarrow> if cell \<noteq> [] then Some (Str cell) else None)
           else None)"
    by (rule t [THEN conjunct1, THEN spec, THEN spec, THEN mp, OF conjI [OF m3 o3]])
  also have "\<dots> = None" by simp
  finally have r3: "map_of (mapFields ?row ?mapping) ''title'' = None" .
  have g: "\<forall>csvColumn\<in>snd ` set ?mapping. getProperty ?row csvColumn \<noteq> Some Object"
    using o1 o2 o3 by simp
  from t [THEN conjunct2, THEN conjunct2, THEN conjunct2, THEN mp, OF g]
  obtain contactRecord where
    c: "toInsertContact exampleEnvironment 1 ?mapping 0 ?row = Inr contactRecord"
    and f: "\<forall>standardField.
            map_of (fieldValues contactRecord) standardField =
              (case map_of ?mapping standardField of
                 None \<Rightarrow> None
               | Some csvColumn \<Rightarrow>
                   if csvColumn \<noteq> [] \<and> csvColumn \<noteq> ''skip'' then
                     (case map_of ?row csvColumn of
                        None \<Rightarrow> None
                      | Some cell \<Rightarrow> if cell \<noteq> [] then Some cell else None)
                   else None)"
    by (elim exE conjE)
  have f1: "map_of (fieldValues contactRecord) ''firstName'' = Some ''Ann''"
    unfolding f [THEN spec, of "''firstName''"] by simp
  have f2: "map_of (fieldValues contactRecord) ''email'' = None"
    unfolding f [THEN spec, of "''email''"] by simp
  have r4: "\<exists>contactRecord.
      toInsertContact exampleEnvironment 1 ?mapping 0 ?row = Inr contactRecord \<and>
      map_of (fieldValues contactRecord) ''firstName'' = Some ''Ann'' \<and>
      map_of (fieldValues contactRecord) ''email'' = None"
    by (intro exI [of _ contactRecord] conjI c f1 f2)
  show ?thesis
    by (intro conjI h o1 r1 r2 r3 r4)
qed

section \<open>Properties of CSV parsing\<close>

lemma collectEvents_fails_iff:
  "(\<exists>e. collectEvents events hs rs b = Inl e) \<longleftrightarrow> Error \<in> set events"
  by (induction events hs rs b rule: collectEvents.induct) auto

text \<open>
  The server-side \<open>parseCSV\<close> has no check of its own: it rejects exactly when the
  stream of the \<open>csv-parser\<close> package emits an error.
\<close>

lemma parseCSV_fails_iff: "(\<exists>e. parseCSV events = Inl e) \<longleftrightarrow> Error \<in> set events"
  unfolding parseCSV_def by (rule collectEvents_fails_iff)

text \<open>
  C5 asks that a zero-byte buffer is rejected with a parse error. The server-side
  \<open>parseCSV\<close>, which both endpoints use, does not do so: for a zero-byte buffer the stream
  ends without an event, \<open>parseCSV\<close> resolves with no headers and no rows, and the upload
  creates a campaign with a record count of 0. The other half of the claim holds: a
  stream that emits the headers and no row resolves with the headers and zero rows.
\<close>

theorem parseCSV_accepts_empty_buffer:
  "parseCSV (csv_parser exampleEnvironment []) = Inr ([], []) \<and>
   importCampaign exampleEnvironment
     \<lparr>req_file = Some \<lparr>buffer = [], originalname = ''empty.csv'', file_size = 0\<rparr>,
      campaignName = Some ''Empty'', fieldMappingRaw = Some (JObject [])\<rparr>
     exampleDatabase
   = (Success \<lparr>name = ''Empty'', fileName = ''empty.csv'', recordCount = 0, fileSize = 0,
               fieldMapping = [], campaign_id = 2, status = ''active''\<rparr>,
      exampleDatabase
        \<lparr>campaigns := campaigns exampleDatabase @
           [\<lparr>name = ''Empty'', fileName = ''empty.csv'', recordCount = 0, fileSize = 0,
             fieldMapping = [], campaign_id = 2, status = ''active''\<rparr>],
         campaigns_id_seq := 2\<rparr>) \<and>
   parseCSV [Headers headers] = Inr (headers, []) \<and>
   length (snd (headers, ([] :: (string \<times> string) list list))) = 0"
  by (simp add: parseCSV_def exampleEnvironment_def importCampaign_def exampleDatabase_def
      getCampaignByName_def fieldMappingSchema_def createCampaign_def saveBatches.simps
      Let_def numeral_2_eq_2)

text \<open>
  The client-side helper \<open>parseCSVFile\<close>, which no caller uses, has the check that the
  server lacks: it rejects a buffer exactly when every character of it is white space,
  and a buffer whose only non-blank line is the header line parses to its headers and
  zero rows.
\<close>

lemma nonEmptyLines_Nil_iff: "nonEmptyLines csv = [] \<longleftrightarrow> (\<forall>c\<in>set csv. isWhiteSpace c)"
proof -
  have "nonEmptyLines csv = [] \<longleftrightarrow>
          (\<forall>line\<in>set (split CHR 0x0A csv). \<forall>c\<in>set line. isWhiteSpace c)"
    by (simp add: nonEmptyLines_def filter_empty_conv trim_Nil_iff)
  also have "\<dots> \<longleftrightarrow> (\<forall>c\<in>set csv. c \<noteq> CHR 0x0A \<longrightarrow> isWhiteSpace c)"
    by (rule split_all_chars)
  also have "\<dots> \<longleftrightarrow> (\<forall>c\<in>set csv. isWhiteSpace c)"
    by (auto simp: isWhiteSpace_def)
  finally show ?thesis .
qed

lemma parseCSVFile_rejects_blank:
  "(parseCSVFile csv = Inl CsvFileIsEmpty \<longleftrightarrow> (\<forall>c\<in>set csv. isWhiteSpace c)) \<and>
   (\<forall>headerLine. nonEmptyLines csv = [headerLine] \<longrightarrow>
      parseCSVFile csv = Inr (map cleanCell (split CHR '','' headerLine), []))"
proof -
  have "parseCSVFile csv = Inl CsvFileIsEmpty \<longleftrightarrow> nonEmptyLines csv = []"
    by (simp add: parseCSVFile_def Let_def split: list.splits)
  then show ?thesis
    by (simp add: nonEmptyLines_Nil_iff parseCSVFile_def)
qed

lemma parseCSVFile_examples:
  "parseCSVFile [] = Inl CsvFileIsEmpty \<and>
   parseCSVFile [CHR '' '', CHR 0x0A, CHR 0x09, CHR '' ''] = Inl CsvFileIsEmpty \<and>
   parseCSVFile (''Name,Mail'' @ [CHR 0x0A]) = Inr ([''Name'', ''Mail''], [])"
  by code_simp

section \<open>Properties of the campaign upload\<close>

declare saveBatches.simps [simp del]

lemma createContacts_calls:
  "createContactsCalls (snd (createContacts b db)) = createContactsCalls db @ [b]"
  by (simp add: createContacts_def Let_def)

lemma withoutId_insertRow: "withoutId (insertRow n ins) = ins"
  by (simp add: withoutId_def insertRow_def)

lemma withoutId_inserted:
  "map (withoutId \<circ> (\<lambda>(i, ins). insertRow (f i) ins)) (zip [0 ..< length b] b) = b"
proof -
  have *: "map (withoutId \<circ> (\<lambda>(i, ins). insertRow (f i) ins)) zs = map snd zs" for zs
    by (induction zs) (auto simp: withoutId_insertRow)
  have "map (withoutId \<circ> (\<lambda>(i, ins). insertRow (f i) ins)) (zip [0 ..< length b] b)
          = map snd (zip [0 ..< length b] b)"
    by (rule *)
  also have "\<dots> = b"
    by (simp add: map_snd_zip)
  finally show ?thesis .
qed

lemma createContacts_contacts:
  "map withoutId (contacts (snd (createContacts b db))) = map withoutId (contacts db) @ b"
  by (simp add: createContacts_def Let_def withoutId_inserted)

lemma saveBatches_from:
  "\<exists>batches.
     createContactsCalls (saveBatches i cd db) = createContactsCalls db @ batches \<and>
     concat batches = drop i cd \<and>
     map length batches =
       replicate ((length cd - i) div 100) 100 @
       (if (length cd - i) mod 100 = 0 then [] else [(length cd - i) mod 100]) \<and>
     map withoutId (contacts (saveBatches i cd db)) = map withoutId (contacts db) @ drop i cd"
proof (induction i cd db rule: saveBatches.induct)
  case (1 i cd db)
  show ?case
  proof (cases "i < length cd")
    case False
    then have "saveBatches i cd db = db"
      by (simp add: saveBatches.simps [of i])
    with False show ?thesis by simp
  next
    case True
    define b where "b = slice i (i + batchSize) cd"
    define db' where "db' = snd (createContacts b db)"
    have step: "saveBatches i cd db = saveBatches (i + batchSize) cd db'"
      using True by (simp add: saveBatches.simps [of i] b_def db'_def)
    from "1.IH" [OF True] obtain bs where
      calls: "createContactsCalls (saveBatches (i + batchSize) cd db')
                = createContactsCalls db' @ bs" and
      cat: "concat bs = drop (i + batchSize) cd" and
      lens: "map length bs =
               replicate ((length cd - (i + batchSize)) div 100) 100 @
               (if (length cd - (i + batchSize)) mod 100 = 0 then []
                else [(length cd - (i + batchSize)) mod 100])" and
      rows: "map withoutId (contacts (saveBatches (i + batchSize) cd db'))
               = map withoutId (contacts db') @ drop (i + batchSize) cd"
      unfolding b_def db'_def by blast
    have b: "b = take 100 (drop i cd)"
      by (simp add: b_def slice_def batchSize_def)
    have rest: "drop (i + batchSize) cd = drop 100 (drop i cd)"
      by (simp add: batchSize_def add.commute)
    have whole: "b @ drop (i + batchSize) cd = drop i cd"
      unfolding b rest by (rule append_take_drop_id)
    have calls': "createContactsCalls db' = createContactsCalls db @ [b]"
      by (simp add: db'_def createContacts_calls)
    have rows': "map withoutId (contacts db') = map withoutId (contacts db) @ b"
      by (simp add: db'_def createContacts_contacts)
    have c1: "createContactsCalls (saveBatches i cd db) = createContactsCalls db @ (b # bs)"
      by (simp add: step calls calls')
    have c2: "concat (b # bs) = drop i cd"
      by (simp add: cat whole)
    have c4: "map withoutId (contacts (saveBatches i cd db))
                = map withoutId (contacts db) @ drop i cd"
      by (simp only: step rows rows' append_assoc whole)
    have c3: "map length (b # bs) =
                replicate ((length cd - i) div 100) 100 @
                (if (length cd - i) mod 100 = 0 then [] else [(length cd - i) mod 100])"
    proof (cases "100 \<le> length cd - i")
      case True
      then have lb: "length b = 100" by (simp add: b)
      have d: "(length cd - i) div 100 = Suc ((length cd - (i + 100)) div 100)"
        using True by (simp add: le_div_geq)
      have m: "(length cd - i) mod 100 = (length cd - (i + 100)) mod 100"
        using True by (simp add: le_mod_geq)
      show ?thesis
        using lens by (simp add: lb d m batchSize_def)
    next
      case False
      with \<open>i < length cd\<close> have lb: "length b = length cd - i" by (simp add: b)
      from False have z: "length cd - (i + 100) = 0" by simp
      from False \<open>i < length cd\<close> have dm:
        "(length cd - i) div 100 = 0" "(length cd - i) mod 100 = length cd - i"
        "length cd - i \<noteq> 0"
        by simp_all
      show ?thesis
        using lens \<open>i < length cd\<close> by (simp add: lb z dm batchSize_def)
    qed
    show ?thesis
      by (intro exI [of _ "b # bs"] conjI c1 c2 c3 c4)
  qed
qed

text \<open>
  C7: for every list of n contact records the batch loop calls the store's batch insert
  once per slice, in order: n div 100 calls of 100 records, then one call of n mod 100
  records when that is not zero. The concatenation of the batches is the record list,
  the contacts table grows by the records in their order, and 250 records give the
  three calls of sizes 100, 100, 50.
\<close>

theorem saveBatches_batches:
  "\<exists>batches.
     createContactsCalls (saveBatches 0 contactsData db) = createContactsCalls db @ batches \<and>
     concat batches = contactsData \<and>
     map length batches =
       replicate (length contactsData div 100) 100 @
       (if length contactsData mod 100 = 0 then [] else [length contactsData mod 100]) \<and>
     map withoutId (contacts (saveBatches 0 contactsData db))
       = map withoutId (contacts db) @ contactsData \<and>
     (length contactsData = 250 \<longrightarrow> map length batches = [100, 100, 50])"
proof -
  from saveBatches_from [of 0 contactsData db] obtain batches where
    c1: "createContactsCalls (saveBatches 0 contactsData db) = createContactsCalls db @ batches"
    and c2: "concat batches = contactsData"
    and c3: "map length batches =
       replicate (length contactsData div 100) 100 @
       (if length contactsData mod 100 = 0 then [] else [length contactsData mod 100])"
    and c4: "map withoutId (contacts (saveBatches 0 contactsData db))
       = map withoutId (contacts db) @ contactsData"
    by (elim exE conjE) simp
  have c5: "length contactsData = 250 \<longrightarrow> map length batches = [100, 100, 50]"
  proof
    assume n: "length contactsData = 250"
    have "replicate (250 div 100) (100::nat) = [100, 100]"
      by (simp add: numeral_2_eq_2)
    then show "map length batches = [100, 100, 50]"
      using c3 by (simp add: n)
  qed
  show ?thesis
    by (intro exI [of _ batches] conjI c1 c2 c3 c4 c5)
qed

theorem saveBatches_batches_witness:
  "length exampleContacts = 250 \<and>
   map length (createContactsCalls (saveBatches 0 exampleContacts exampleDatabase))
     = [100, 100, 50] \<and>
   length (contacts (saveBatches 0 exampleContacts exampleDatabase)) = 250"
proof -
  from saveBatches_batches [of exampleContacts exampleDatabase]
  obtain batches where c:
    "createContactsCalls (saveBatches 0 exampleContacts exampleDatabase)
       = createContactsCalls exampleDatabase @ batches \<and>
     concat batches = exampleContacts \<and>
     map length batches =
       replicate (length exampleContacts div 100) 100 @
       (if length exampleContacts mod 100 = 0 then [] else [length exampleContacts mod 100]) \<and>
     map withoutId (contacts (saveBatches 0 exampleContacts exampleDatabase))
       = map withoutId (contacts exampleDatabase) @ exampleContacts \<and>
     (length exampleContacts = 250 \<longrightarrow> map length batches = [100, 100, 50])" ..
  note c1 = c [THEN conjunct1]
  note c4 = c [THEN conjunct2, THEN conjunct2, THEN conjunct2, THEN conjunct1]
  note c5 = c [THEN conjunct2, THEN conjunct2, THEN conjunct2, THEN conjunct2]
  have l: "length exampleContacts = 250"
    unfolding exampleContacts_def by (rule length_replicate)
  have e: "createContactsCalls exampleDatabase = []" "contacts exampleDatabase = []"
    by (simp_all add: exampleDatabase_def)
  from c5 l have b: "map length batches = [100, 100, 50]" by (rule mp)
  have r1: "map length (createContactsCalls (saveBatches 0 exampleContacts exampleDatabase))
              = [100, 100, 50]"
    unfolding c1 e using b by simp
  have "length (map withoutId (contacts (saveBatches 0 exampleContacts exampleDatabase)))
          = 250"
    unfolding c4 e using l by simp
  then have r2: "length (contacts (saveBatches 0 exampleContacts exampleDatabase)) = 250"
    by simp
  show ?thesis
    by (intro conjI l r1 r2)
qed

lemma importCampaign_existing_name:
  assumes "campaignName req = Some cname"
    and "getCampaignByName db cname = Some existing"
  shows "snd (importCampaign env req db) = db"
    and "\<exists>code message. fst (importCampaign env req db) = Failure code message"
    and "req_file req = Some file \<Longrightarrow> cname \<noteq> [] \<Longrightarrow> fieldMappingRaw req = Some raw \<Longrightarrow>
         fieldMappingSchema_parse raw = Inr mapping \<Longrightarrow>
         importCampaign env req db = (Failure 400 ''Campaign name already exists'', db)"
  using assms
  by (auto simp: importCampaign_def split: option.splits sum.splits zod_error.splits)

text \<open>
  C6, as stated, fails: a request whose campaign name equals an existing campaign's name
  but whose field mapping does not validate is answered with the validation failure,
  not the conflict; the checks for the file, the name and the mapping come first.
\<close>

theorem importCampaign_conflict_counterexample:
  "getCampaignByName exampleDatabase ''Q1 Leads'' \<noteq> None \<and>
   importCampaign exampleEnvironment
     \<lparr>req_file = Some exampleFile, campaignName = Some ''Q1 Leads'',
      fieldMappingRaw = Some (JObject [(''email'', JNumber 7)])\<rparr>
     exampleDatabase
   = (Failure 400 ''Invalid data format'', exampleDatabase)"
  by (simp add: importCampaign_def getCampaignByName_def exampleDatabase_def
      fieldMappingSchema_def)

text \<open>
  C6, amended: every import request whose campaign name equals the name of an existing
  campaign (exact match) fails and leaves the store unchanged: no campaign row and no
  contact row is created, and no batch insert is called. When the request carries a file
  and a field mapping that passes validation, the failure is the conflict
  (400, Campaign name already exists).
\<close>

theorem importCampaign_conflict:
  assumes "campaignName req = Some cname"
    and "getCampaignByName db cname = Some existing"
  shows "snd (importCampaign env req db) = db \<and>
         (\<exists>code message. fst (importCampaign env req db) = Failure code message) \<and>
         (\<forall>file raw mapping.
            req_file req = Some file \<and> cname \<noteq> [] \<and> fieldMappingRaw req = Some raw \<and>
            fieldMappingSchema_parse raw = Inr mapping \<longrightarrow>
            importCampaign env req db = (Failure 400 ''Campaign name already exists'', db))"
  using importCampaign_existing_name [OF assms, where env = env] by blast

theorem importCampaign_conflict_witness:
  "campaignName \<lparr>req_file = Some exampleFile, campaignName = Some ''Q1 Leads'',
                  fieldMappingRaw = Some (JObject [(''email'', JString ''Mail'')])\<rparr>
     = Some ''Q1 Leads'' \<and>
   getCampaignByName exampleDatabase ''Q1 Leads'' = Some (hd (campaigns exampleDatabase)) \<and>
   fieldMappingSchema_parse (JObject [(''email'', JString ''Mail'')])
     = Inr [(''email'', ''Mail'')] \<and>
   importCampaign exampleEnvironment
     \<lparr>req_file = Some exampleFile, campaignName = Some ''Q1 Leads'',
      fieldMappingRaw = Some (JObject [(''email'', JString ''Mail'')])\<rparr>
     exampleDatabase
   = (Failure 400 ''Campaign name already exists'', exampleDatabase)"
proof -
  let ?req = "\<lparr>req_file = Some exampleFile, campaignName = Some ''Q1 Leads'',
               fieldMappingRaw = Some (JObject [(''email'', JString ''Mail'')])\<rparr>"
  have h1: "campaignName ?req = Some ''Q1 Leads''" by simp
  have h2: "getCampaignByName exampleDatabase ''Q1 Leads''
              = Some (hd (campaigns exampleDatabase))"
    by (simp add: getCampaignByName_def exampleDatabase_def)
  have h3: "fieldMappingSchema_parse (JObject [(''email'', JString ''Mail'')])
              = Inr [(''email'', ''Mail'')]"
    by (simp add: fieldMappingSchema_def)
  have h4: "req_file ?req = Some exampleFile \<and> ''Q1 Leads'' \<noteq> [] \<and>
            fieldMappingRaw ?req = Some (JObject [(''email'', JString ''Mail'')])"
    by simp
  have "importCampaign exampleEnvironment ?req exampleDatabase
          = (Failure 400 ''Campaign name already exists'', exampleDatabase)"
    using importCampaign_conflict [OF h1 h2, of exampleEnvironment] h3 h4 by blast
  with h1 h2 h3 show ?thesis by blast
qed

section \<open>Properties of the encryption utilities\<close>

lemma hexDigit_hex: "hexDigit n \<in> set ''0123456789abcdef''"
proof -
  have "n mod 16 < length ''0123456789abcdef''" by simp
  then show ?thesis unfolding hexDigit_def by (rule nth_mem)
qed

lemma isHex_toHex: "isHex (toHex bytes)"
  using hexDigit_hex by (induction bytes) (simp_all add: isHex_def toHex_def)

lemma isHex_no_colon:
  assumes "isHex s"
  shows "CHR '':'' \<notin> set s"
proof
  assume "CHR '':'' \<in> set s"
  with assms have "CHR '':'' \<in> set ''0123456789abcdef''"
    unfolding isHex_def list_all_iff by (rule bspec)
  then show False by simp
qed

lemma decrypt_prefixed:
  assumes "CHR '':'' \<notin> set i"
  shows "decrypt decipher (i @ '':'' @ c) =
           (case decipher (takeWhile (\<lambda>x. x \<noteq> CHR '':'') c) of
              Some decrypted \<Rightarrow> decrypted
            | None \<Rightarrow> i @ '':'' @ c)"
proof -
  obtain rest where r: "split CHR '':'' c = takeWhile (\<lambda>x. x \<noteq> CHR '':'') c # rest"
    using split_first [of "CHR '':''" c] ..
  have e: "'':'' @ c = CHR '':'' # c"
    by simp
  have sp: "split CHR '':'' (i @ CHR '':'' # c)
              = i # takeWhile (\<lambda>x. x \<noteq> CHR '':'') c # rest"
    by (simp only: split_prefix [OF assms] r)
  show ?thesis
    unfolding e decrypt_def sp by (simp only: list.case)
qed

text \<open>
  C10, as stated, fails: when deciphering the payload throws, \<open>decrypt\<close> returns its whole
  input, initialization-vector prefix included, so two inputs with the same payload and
  different prefixes give different results.
\<close>

theorem decrypt_iv_prefix_counterexample:
  "isHex ''00'' \<and> isHex ''ff'' \<and>
   decrypt exampleDecipher (''00'' @ '':'' @ ''7a7a'')
     \<noteq> decrypt exampleDecipher (''ff'' @ '':'' @ ''7a7a'')"
  by (simp add: isHex_def decrypt_def exampleDecipher_def)

text \<open>
  C10, amended: for every payload and any two hex prefixes, when deciphering the payload
  (its part before a colon) succeeds, \<open>decrypt\<close> returns the deciphered text whatever the
  prefix, so both inputs give the same result; when it throws, \<open>decrypt\<close> returns each
  input unchanged. Two runs of \<open>encrypt\<close> on the same plaintext are a hex prefix, a colon
  and the same payload: they differ only in the prefix.
\<close>

theorem decrypt_iv_prefix:
  assumes "isHex i1" and "isHex i2"
  shows "(decipher (takeWhile (\<lambda>x. x \<noteq> CHR '':'') c) \<noteq> None \<longrightarrow>
            decrypt decipher (i1 @ '':'' @ c) = decrypt decipher (i2 @ '':'' @ c)) \<and>
         (decipher (takeWhile (\<lambda>x. x \<noteq> CHR '':'') c) = None \<longrightarrow>
            decrypt decipher (i1 @ '':'' @ c) = i1 @ '':'' @ c \<and>
            decrypt decipher (i2 @ '':'' @ c) = i2 @ '':'' @ c) \<and>
         (\<exists>payload. encrypt encipher iv1 text = toHex iv1 @ '':'' @ payload \<and>
                    encrypt encipher iv2 text = toHex iv2 @ '':'' @ payload) \<and>
         isHex (toHex iv1) \<and> isHex (toHex iv2)"
proof -
  note d1 = decrypt_prefixed [OF isHex_no_colon [OF assms(1)], of decipher c]
  note d2 = decrypt_prefixed [OF isHex_no_colon [OF assms(2)], of decipher c]
  have a: "decipher (takeWhile (\<lambda>x. x \<noteq> CHR '':'') c) \<noteq> None \<longrightarrow>
            decrypt decipher (i1 @ '':'' @ c) = decrypt decipher (i2 @ '':'' @ c)"
    unfolding d1 d2 by (cases "decipher (takeWhile (\<lambda>x. x \<noteq> CHR '':'') c)") simp_all
  have b: "decipher (takeWhile (\<lambda>x. x \<noteq> CHR '':'') c) = None \<longrightarrow>
            decrypt decipher (i1 @ '':'' @ c) = i1 @ '':'' @ c \<and>
            decrypt decipher (i2 @ '':'' @ c) = i2 @ '':'' @ c"
    unfolding d1 d2 by (cases "decipher (takeWhile (\<lambda>x. x \<noteq> CHR '':'') c)") simp_all
  have e: "\<exists>payload. encrypt encipher iv1 text = toHex iv1 @ '':'' @ payload \<and>
                    encrypt encipher iv2 text = toHex iv2 @ '':'' @ payload"
    by (rule exI [of _ "encipher text"]) (simp add: encrypt_def)
  show ?thesis
    by (intro conjI a b e isHex_toHex)
qed

theorem decrypt_iv_prefix_witness:
  "isHex ''00'' \<and> isHex ''ff'' \<and>
   exampleDecipher (takeWhile (\<lambda>x. x \<noteq> CHR '':'') ''6869'') = Some ''hi'' \<and>
   decrypt exampleDecipher (''00'' @ '':'' @ ''6869'')
     = decrypt exampleDecipher (''ff'' @ '':'' @ ''6869'') \<and>
   exampleDecipher (takeWhile (\<lambda>x. x \<noteq> CHR '':'') ''7a7a'') = None \<and>
   decrypt exampleDecipher (''00'' @ '':'' @ ''7a7a'') = ''00'' @ '':'' @ ''7a7a''"
proof -
  have h1: "isHex ''00''" and h2: "isHex ''ff''"
    by (simp_all add: isHex_def)
  have s: "exampleDecipher (takeWhile (\<lambda>x. x \<noteq> CHR '':'') ''6869'') = Some ''hi''"
    by (simp add: exampleDecipher_def)
  have n: "exampleDecipher (takeWhile (\<lambda>x. x \<noteq> CHR '':'') ''7a7a'') = None"
    by (simp add: exampleDecipher_def)
  from s have s': "exampleDecipher (takeWhile (\<lambda>x. x \<noteq> CHR '':'') ''6869'') \<noteq> None"
    by simp
  have r1: "decrypt exampleDecipher (''00'' @ '':'' @ ''6869'')
              = decrypt exampleDecipher (''ff'' @ '':'' @ ''6869'')"
    by (rule decrypt_iv_prefix [OF h1 h2, of exampleDecipher "''6869''", THEN conjunct1,
          THEN mp, OF s'])
  have r2: "decrypt exampleDecipher (''00'' @ '':'' @ ''7a7a'') = ''00'' @ '':'' @ ''7a7a''"
    by (rule decrypt_iv_prefix [OF h1 h2, of exampleDecipher "''7a7a''", THEN conjunct2,
          THEN conjunct1, THEN mp, OF n, THEN conjunct1])
  show ?thesis
    by (intro conjI h1 h2 s r1 n r2)
qed

end
